theory Spec2Isabelle
  imports Main
begin

section \<open>The S3/SQS ingress of talaria (internal/ingress/s3sqs/s3sqs.go)\<close>

text \<open>
  The ingress owns a queue reader, an object downloader, a monitor, a cancellation
  function and a weighted semaphore. \<open>Range\<close> starts a \<open>drain\<close> goroutine, \<open>drain\<close>
  starts one \<open>ingest\<close> goroutine per notification record, \<open>Close\<close> cancels, closes the
  queue and acquires the whole semaphore.

  The goroutines are modelled by an interleaving semantics: every goroutine is a record
  of its local variables and its program point, a label names the goroutine that moves
  and carries what the outside world answers (the message the queue delivers, the result
  of DeleteMessage, of Load and of the handler), and \<open>step\<close> executes the statement at
  the program point. The calls made to the three capabilities and to the handler are
  appended, in order, to a trace.
\<close>

subsection \<open>Data\<close>

type_synonym bytes = string

text \<open>
  Go's \<open>error\<close> values. An error of a collaborator (queue, downloader, JSON decoder) is
  opaque; \<open>url.EscapeError\<close> carries the offending text; \<open>errors.Internal\<close> wraps a
  message around a cause.
\<close>

datatype gerror = External string | EscapeError string | Internal string gerror

text \<open>
  \<open>awssqs.Message\<close>: the two fields the ingress reads, both pointers to strings. The
  message itself is a pointer, so the queue delivers a \<open>message option\<close>.
\<close>

record message =
  Body :: "string option"
  ReceiptHandle :: "string option"

text \<open>
  The \<open>events\<close> structure the body is decoded into. Of every record only
  \<open>S3.Bucket.Name\<close> and \<open>S3.Object.Key\<close> are read; the other fields are decoded and
  never looked at, and are left out.
\<close>

record s3bucket =
  Name :: string

record s3object =
  Key :: string

record s3entity =
  Bucket :: s3bucket
  Object :: s3object

record event =
  S3 :: s3entity

record events =
  Records :: "event list"

text \<open>
  What does not belong to the repository and is fixed for one run: the number of CPUs
  (\<open>runtime.NumCPU()\<close>) and \<open>json.Unmarshal\<close> into an \<open>events\<close> value, a function of
  the body that fails with an error or returns the decoded structure.
\<close>

record host =
  NumCPU :: nat
  Unmarshal :: "string \<Rightarrow> string + events"

text \<open>\<open>var concurrency = int64(runtime.NumCPU() * 3)\<close>\<close>

definition concurrency :: "host \<Rightarrow> nat" where
  "concurrency h = NumCPU h * 3"

definition ctxTag :: string where
  "ctxTag = ''s3sqs''"

text \<open>The calls that leave the ingress, as the trace records them.\<close>

datatype effect =
    StartPolling nat nat
  | DeleteMessage message
  | QueueClose
  | Load string
  | Handler bytes
  | MonError gerror
  | MonCount1 string string
  | MonDuration string string

subsection \<open>url.QueryUnescape\<close>

text \<open>
  \<open>drain\<close> decodes the key with Go's \<open>url.QueryUnescape\<close>, that is \<open>unescape\<close> in
  mode \<open>encodeQueryComponent\<close> (package net/url of the standard library). Its first loop
  checks that every \<open>%\<close> is followed by two hexadecimal digits and fails with an
  \<open>EscapeError\<close> holding at most three bytes from the offending \<open>%\<close> on; its second
  loop writes the decoded bytes, a \<open>+\<close> as a space. \<open>unhex\<close> is below 16, so
  \<open>unhex(a)<<4 | unhex(b)\<close> is \<open>16 * unhex a + unhex b\<close> and fits a byte.
\<close>

definition ishex :: "char \<Rightarrow> bool" where
  "ishex c =
     (let n = (of_char c :: nat) in
      (48 \<le> n \<and> n \<le> 57) \<or> (97 \<le> n \<and> n \<le> 102) \<or> (65 \<le> n \<and> n \<le> 70))"

definition unhex :: "char \<Rightarrow> nat" where
  "unhex c =
     (let n = (of_char c :: nat) in
      if 48 \<le> n \<and> n \<le> 57 then n - 48
      else if 97 \<le> n \<and> n \<le> 102 then n - 97 + 10
      else if 65 \<le> n \<and> n \<le> 70 then n - 65 + 10
      else 0)"

fun escape_check :: "string \<Rightarrow> gerror option" where
  "escape_check [] = None"
| "escape_check (c # cs) =
     (if c = CHR ''%'' then
        (case cs of
           a # b # rest \<Rightarrow>
             if ishex a \<and> ishex b then escape_check rest
             else Some (EscapeError (take 3 (c # cs)))
         | _ \<Rightarrow> Some (EscapeError (take 3 (c # cs))))
      else escape_check cs)"

fun escape_write :: "string \<Rightarrow> string" where
  "escape_write [] = []"
| "escape_write (c # cs) =
     (if c = CHR ''%'' then
        (case cs of
           a # b # rest \<Rightarrow> char_of (16 * unhex a + unhex b) # escape_write rest
         | _ \<Rightarrow> [])
      else if c = CHR ''+'' then CHR '' '' # escape_write cs
      else c # escape_write cs)"

definition QueryUnescape :: "string \<Rightarrow> gerror + string" where
  "QueryUnescape s =
     (case escape_check s of
        Some e \<Rightarrow> Inl e
      | None \<Rightarrow>
          if CHR ''%'' \<notin> set s \<and> CHR ''+'' \<notin> set s then Inr s
          else Inr (escape_write s))"

subsection \<open>Goroutines and the shared state\<close>

text \<open>
  The program points of \<open>drain\<close>: at the \<open>select\<close>; in the \<open>for ... range\<close> over the
  records still to visit; inside \<open>s.limit.Acquire(ctx, 1)\<close> for a bucket and a decoded
  key; past the acquire and before \<open>go s.ingest(bucket, key, handler)\<close>; returned.
\<close>

datatype drain_pc =
    DSelect
  | DRange "event list"
  | DAcquire string string "event list"
  | DGo string string "event list"
  | DReturn

record drainer =
  dctx :: nat
  dpc :: drain_pc

text \<open>
  The program points of \<open>ingest\<close>: before \<open>s.loader.Load\<close>; before the handler; at
  the deferred \<open>s.limit.Release(1)\<close>; at the deferred \<open>s.monitor.Duration\<close>, which was
  deferred first and so runs last; returned. \<open>outcome\<close> holds \<open>data, err\<close> once Load
  has returned.
\<close>

datatype task_pc = TLoad | THandler | TRelease | TDuration | TDone

record task =
  bucket :: string
  key :: string
  outcome :: "(string + bytes) option"
  tpc :: task_pc

text \<open>
  The program points of \<open>Close\<close>: before \<open>s.cancel()\<close>; before \<open>s.sqs.Close()\<close>;
  inside \<open>s.limit.Acquire(context.Background(), concurrency)\<close>; returned.
\<close>

datatype close_pc = CCancel | CQueueClose | CAcquire | CReturn

text \<open>
  The \<open>Ingress\<close> structure and what runs on it. \<open>cancel\<close> is the field \<open>s.cancel\<close>:
  \<open>None\<close> is Go's nil function, \<open>Some c\<close> the cancel function of context \<open>c\<close>;
  \<open>ctxs ! c\<close> tells whether context \<open>c\<close> is done. \<open>limit_size\<close> and \<open>limit_cur\<close>
  are the semaphore \<open>s.limit\<close>: its capacity and the units held. The queue, the
  downloader and the monitor are outside; the calls to them are in \<open>trace\<close>.
\<close>

record state =
  cancel :: "nat option"
  ctxs :: "bool list"
  limit_size :: nat
  limit_cur :: nat
  drains :: "drainer list"
  tasks :: "task list"
  closers :: "close_pc list"
  trace :: "effect list"

text \<open>
  A failed step: the label does not name a statement that can run now (the goroutine
  does not exist, is elsewhere, or is blocked), or the statement panics: a call of a nil
  function, or the semaphore's "released more than held".
\<close>

datatype fault = NotEnabled | NilFuncCall | ReleasedMoreThanHeld

text \<open>
  \<open>NewWith\<close>: \<open>s.cancel\<close> is left nil, the semaphore is created with \<open>concurrency\<close> units.
\<close>

definition NewWith :: "host \<Rightarrow> state" where
  "NewWith h =
     \<lparr>cancel = None, ctxs = [], limit_size = concurrency h, limit_cur = 0,
      drains = [], tasks = [], closers = [], trace = []\<rparr>"

text \<open>
  \<open>acknowledge\<close>: no receipt handle, nothing to delete; otherwise DeleteMessage is
  called, and \<open>resp\<close> is what it returns.
\<close>

definition acknowledge :: "message \<Rightarrow> string option \<Rightarrow> effect list \<times> gerror option" where
  "acknowledge msg resp =
     (case ReceiptHandle msg of
        None \<Rightarrow> ([], None)
      | Some rh \<Rightarrow>
          (case resp of
             Some e \<Rightarrow> ([DeleteMessage msg], Some (Internal ''sqs: unable to delete'' (External e)))
           | None \<Rightarrow> ([DeleteMessage msg], None)))"

text \<open>
  The branch \<open>case msg := <-queue\<close> of \<open>drain\<close> up to its loop over the records: the
  calls it makes and the program point it reaches.
\<close>

definition receive :: "host \<Rightarrow> message option \<Rightarrow> string option \<Rightarrow> effect list \<times> drain_pc" where
  "receive h mo resp =
     (case mo of
        None \<Rightarrow> ([], DSelect)
      | Some msg \<Rightarrow>
          (case Body msg of
             None \<Rightarrow> ([], DSelect)
           | Some body \<Rightarrow>
               (case acknowledge msg resp of
                  (fx, Some err) \<Rightarrow> (fx @ [MonError err], DSelect)
                | (fx, None) \<Rightarrow>
                    (case Unmarshal h body of
                       Inl e \<Rightarrow>
                         (fx @ [MonError (Internal ''sqs: unable to unmarshal'' (External e))],
                          DSelect)
                     | Inr evs \<Rightarrow> (fx, DRange (Records evs))))))"

text \<open>
  One turn of \<open>for _, event := range events.Records\<close> up to the acquire; when no record
  is left the loop ends and \<open>drain\<close> is back at its \<open>select\<close>.
\<close>

fun next_record :: "event list \<Rightarrow> effect list \<times> drain_pc" where
  "next_record [] = ([], DSelect)"
| "next_record (ev # rest) =
     (case QueryUnescape (Key (Object (S3 ev))) of
        Inl err \<Rightarrow> ([MonError (Internal ''sqs: unable to unescape query'' err)], DRange rest)
      | Inr k \<Rightarrow> ([], DAcquire (Name (Bucket (S3 ev))) k rest))"

text \<open>\<open>fmt.Sprintf("s3://%s/%s", bucket, key)\<close>\<close>

definition locator :: "string \<Rightarrow> string \<Rightarrow> string" where
  "locator b k = ''s3://'' @ b @ ''/'' @ k"

text \<open>
  The labels. \<open>CallRange\<close> is a call of \<open>Range\<close>, which does not block and runs in one
  step; \<open>CallClose\<close> is a call of \<open>Close\<close>, whose statements run one per \<open>CloseStep\<close>.
  For \<open>drain\<close> number \<open>j\<close>: \<open>DrainDone\<close> takes the branch \<open><-ctx.Done()\<close>,
  \<open>DrainRecv j mo resp\<close> the branch \<open><-queue\<close> with the message delivered and the
  answer DeleteMessage gives if it is called, \<open>DrainNext\<close> visits the next record,
  \<open>AcquireOk\<close> and \<open>AcquireCancelled\<close> are the two ways \<open>Acquire(ctx, 1)\<close> returns,
  \<open>DrainGo\<close> is the \<open>go\<close> statement. For \<open>ingest\<close> number \<open>k\<close>: \<open>TaskLoad\<close> with
  what Load returns, \<open>TaskHandler\<close> with what the handler returns, and the two deferred
  calls.
\<close>

datatype label =
    CallRange
  | CallClose
  | CloseStep nat
  | DrainDone nat
  | DrainRecv nat "message option" "string option"
  | DrainNext nat
  | AcquireOk nat
  | AcquireCancelled nat
  | DrainGo nat
  | TaskLoad nat "string + bytes"
  | TaskHandler nat bool
  | TaskRelease nat
  | TaskDuration nat

definition set_dpc :: "nat \<Rightarrow> drain_pc \<Rightarrow> state \<Rightarrow> state" where
  "set_dpc j pc s = s\<lparr>drains := (drains s)[j := (drains s ! j)\<lparr>dpc := pc\<rparr>]\<rparr>"

definition emit :: "effect list \<Rightarrow> state \<Rightarrow> state" where
  "emit fx s = s\<lparr>trace := trace s @ fx\<rparr>"

definition ctx_done :: "state \<Rightarrow> nat \<Rightarrow> bool" where
  "ctx_done s c = (c < length (ctxs s) \<and> ctxs s ! c)"

text \<open>
  \<open>Close\<close>, statement by statement. Calling the nil \<open>s.cancel\<close> panics. The acquire of
  \<open>concurrency\<close> units with a context that is never done returns only when that many
  units are free.
\<close>

definition close_step :: "host \<Rightarrow> nat \<Rightarrow> state \<Rightarrow> fault + state" where
  "close_step h i s =
     (if i < length (closers s) then
        (case closers s ! i of
           CCancel \<Rightarrow>
             (case cancel s of
                None \<Rightarrow> Inl NilFuncCall
              | Some c \<Rightarrow>
                  Inr (s\<lparr>ctxs := (ctxs s)[c := True],
                         closers := (closers s)[i := CQueueClose]\<rparr>))
         | CQueueClose \<Rightarrow>
             Inr (emit [QueueClose] (s\<lparr>closers := (closers s)[i := CAcquire]\<rparr>))
         | CAcquire \<Rightarrow>
             if limit_cur s + concurrency h \<le> limit_size s
             then Inr (s\<lparr>limit_cur := limit_cur s + concurrency h,
                         closers := (closers s)[i := CReturn]\<rparr>)
             else Inl NotEnabled
         | CReturn \<Rightarrow> Inl NotEnabled)
      else Inl NotEnabled)"

text \<open>
  \<open>ingest\<close>, statement by statement. On a failed Load the counter and the error are
  reported and the function returns; otherwise the handler is called and its result
  dropped (\<open>_ = handler(data)\<close>). Either way the deferred calls follow: Release, then
  Duration.
\<close>

definition task_load :: "nat \<Rightarrow> string + bytes \<Rightarrow> state \<Rightarrow> fault + state" where
  "task_load k r s =
     (if k < length (tasks s) \<and> tpc (tasks s ! k) = TLoad then
        (let t = tasks s ! k; call = Load (locator (bucket t) (key t)) in
         case r of
           Inl e \<Rightarrow>
             Inr (emit [call, MonCount1 ctxTag ''s3readerror'', MonError (External e)]
                    (s\<lparr>tasks := (tasks s)[k := t\<lparr>outcome := Some r, tpc := TRelease\<rparr>]\<rparr>))
         | Inr d \<Rightarrow>
             Inr (emit [call]
                    (s\<lparr>tasks := (tasks s)[k := t\<lparr>outcome := Some r, tpc := THandler\<rparr>]\<rparr>)))
      else Inl NotEnabled)"

definition task_handler :: "nat \<Rightarrow> bool \<Rightarrow> state \<Rightarrow> fault + state" where
  "task_handler k ret s =
     (if k < length (tasks s) \<and> tpc (tasks s ! k) = THandler then
        (case outcome (tasks s ! k) of
           Some (Inr d) \<Rightarrow>
             Inr (emit [Handler d]
                    (s\<lparr>tasks := (tasks s)[k := (tasks s ! k)\<lparr>tpc := TRelease\<rparr>]\<rparr>))
         | _ \<Rightarrow> Inl NotEnabled)
      else Inl NotEnabled)"

definition task_release :: "nat \<Rightarrow> state \<Rightarrow> fault + state" where
  "task_release k s =
     (if k < length (tasks s) \<and> tpc (tasks s ! k) = TRelease then
        (if limit_cur s = 0 then Inl ReleasedMoreThanHeld
         else Inr (s\<lparr>limit_cur := limit_cur s - 1,
                     tasks := (tasks s)[k := (tasks s ! k)\<lparr>tpc := TDuration\<rparr>]\<rparr>))
      else Inl NotEnabled)"

definition task_duration :: "nat \<Rightarrow> state \<Rightarrow> fault + state" where
  "task_duration k s =
     (if k < length (tasks s) \<and> tpc (tasks s ! k) = TDuration then
        Inr (emit [MonDuration ctxTag ''s3sqs'']
               (s\<lparr>tasks := (tasks s)[k := (tasks s ! k)\<lparr>tpc := TDone\<rparr>]\<rparr>))
      else Inl NotEnabled)"

text \<open>
  \<open>drain\<close>, statement by statement. \<open>Acquire(ctx, 1)\<close> returns nil once a unit is free
  and takes it, or the context's error once the context is done; where both hold either
  may happen.
\<close>

definition drain_step :: "host \<Rightarrow> label \<Rightarrow> nat \<Rightarrow> state \<Rightarrow> fault + state" where
  "drain_step h l j s =
     (if j < length (drains s) then
        (case (l, dpc (drains s ! j)) of
           (DrainDone _, DSelect) \<Rightarrow>
             if ctx_done s (dctx (drains s ! j)) then Inr (set_dpc j DReturn s)
             else Inl NotEnabled
         | (DrainRecv _ mo resp, DSelect) \<Rightarrow>
             (case receive h mo resp of (fx, pc) \<Rightarrow> Inr (emit fx (set_dpc j pc s)))
         | (DrainNext _, DRange evs) \<Rightarrow>
             (case next_record evs of (fx, pc) \<Rightarrow> Inr (emit fx (set_dpc j pc s)))
         | (AcquireOk _, DAcquire b k rest) \<Rightarrow>
             if limit_cur s + 1 \<le> limit_size s
             then Inr (set_dpc j (DGo b k rest) (s\<lparr>limit_cur := limit_cur s + 1\<rparr>))
             else Inl NotEnabled
         | (AcquireCancelled _, DAcquire b k rest) \<Rightarrow>
             if ctx_done s (dctx (drains s ! j)) then Inr (set_dpc j (DRange rest) s)
             else Inl NotEnabled
         | (DrainGo _, DGo b k rest) \<Rightarrow>
             Inr (set_dpc j (DRange rest)
                    (s\<lparr>tasks := tasks s @ [\<lparr>bucket = b, key = k, outcome = None, tpc = TLoad\<rparr>]\<rparr>))
         | _ \<Rightarrow> Inl NotEnabled)
      else Inl NotEnabled)"

text \<open>
  \<open>Range\<close>: a fresh context, \<open>s.cancel\<close> set to its cancel function, polling started
  with \<open>(1, 100, nil, nil)\<close>, \<open>drain\<close> started on the new context.
\<close>

definition Range :: "state \<Rightarrow> state" where
  "Range s =
     emit [StartPolling 1 100]
       (s\<lparr>cancel := Some (length (ctxs s)),
          ctxs := ctxs s @ [False],
          drains := drains s @ [\<lparr>dctx = length (ctxs s), dpc = DSelect\<rparr>]\<rparr>)"

fun step :: "host \<Rightarrow> label \<Rightarrow> state \<Rightarrow> fault + state" where
  "step h CallRange s = Inr (Range s)"
| "step h CallClose s = Inr (s\<lparr>closers := closers s @ [CCancel]\<rparr>)"
| "step h (CloseStep i) s = close_step h i s"
| "step h (DrainDone j) s = drain_step h (DrainDone j) j s"
| "step h (DrainRecv j mo resp) s = drain_step h (DrainRecv j mo resp) j s"
| "step h (DrainNext j) s = drain_step h (DrainNext j) j s"
| "step h (AcquireOk j) s = drain_step h (AcquireOk j) j s"
| "step h (AcquireCancelled j) s = drain_step h (AcquireCancelled j) j s"
| "step h (DrainGo j) s = drain_step h (DrainGo j) j s"
| "step h (TaskLoad k r) s = task_load k r s"
| "step h (TaskHandler k ret) s = task_handler k ret s"
| "step h (TaskRelease k) s = task_release k s"
| "step h (TaskDuration k) s = task_duration k s"

text \<open>A run: the labels in the order the scheduler picks them; a panic ends it.\<close>

fun exec :: "host \<Rightarrow> label list \<Rightarrow> state \<Rightarrow> fault + state" where
  "exec h [] s = Inr s"
| "exec h (l # ls) s = (case step h l s of Inl f \<Rightarrow> Inl f | Inr s' \<Rightarrow> exec h ls s')"

subsection \<open>What the properties are stated with\<close>

text \<open>
  A task holds its unit of the semaphore from its launch until its deferred Release has
  run; a \<open>drain\<close> holds one between its acquire and its \<open>go\<close> statement; a returned
  \<open>Close\<close> holds \<open>concurrency\<close> units for good.
\<close>

definition holding :: "task \<Rightarrow> bool" where
  "holding t = (tpc t = TLoad \<or> tpc t = THandler \<or> tpc t = TRelease)"

fun admitted :: "drain_pc \<Rightarrow> bool" where
  "admitted (DGo b k rest) = True"
| "admitted pc = False"

definition launching :: "drainer \<Rightarrow> bool" where
  "launching d = admitted (dpc d)"

definition units_held :: "host \<Rightarrow> state \<Rightarrow> nat" where
  "units_held h s =
     length (filter holding (tasks s)) + length (filter launching (drains s))
     + concurrency h * length (filter (\<lambda>c. c = CReturn) (closers s))"

definition limit_ok :: "host \<Rightarrow> state \<Rightarrow> bool" where
  "limit_ok h s =
     (limit_size s = concurrency h \<and> limit_cur s = units_held h s \<and> limit_cur s \<le> limit_size s)"

text \<open>The tasks launched that still hold their unit, and the tasks that have not returned.\<close>

definition outstanding :: "state \<Rightarrow> nat" where
  "outstanding s = length (filter holding (tasks s))"

definition unfinished :: "state \<Rightarrow> nat" where
  "unfinished s = length (filter (\<lambda>t. tpc t \<noteq> TDone) (tasks s))"

text \<open>The local variables of a task fit its program point.\<close>

definition task_wf :: "task \<Rightarrow> bool" where
  "task_wf t =
     (case outcome t of
        None \<Rightarrow> tpc t = TLoad
      | Some (Inl e) \<Rightarrow> tpc t = TRelease \<or> tpc t = TDuration \<or> tpc t = TDone
      | Some (Inr d) \<Rightarrow> tpc t \<noteq> TLoad)"

text \<open>
  A task whose Load failed; a task that has called the handler; the reports and calls
  of the trace they are counted against.
\<close>

definition failed :: "task \<Rightarrow> bool" where
  "failed t = (case outcome t of Some (Inl e) \<Rightarrow> True | _ \<Rightarrow> False)"

definition handled :: "task \<Rightarrow> bool" where
  "handled t =
     (case outcome t of
        Some (Inr d) \<Rightarrow> tpc t = TRelease \<or> tpc t = TDuration \<or> tpc t = TDone
      | _ \<Rightarrow> False)"

fun load_errors :: "effect list \<Rightarrow> string list" where
  "load_errors [] = []"
| "load_errors (MonError (External e) # fx) = e # load_errors fx"
| "load_errors (x # fx) = load_errors fx"

fun handler_calls :: "effect list \<Rightarrow> bytes list" where
  "handler_calls [] = []"
| "handler_calls (Handler d # fx) = d # handler_calls fx"
| "handler_calls (x # fx) = handler_calls fx"

text \<open>
  The records of an envelope whose key decodes, as the bucket and decoded key \<open>drain\<close>
  passes to \<open>ingest\<close>, and the errors \<open>drain\<close> reports for the others.
\<close>

definition decodable :: "event \<Rightarrow> bool" where
  "decodable ev = (case QueryUnescape (Key (Object (S3 ev))) of Inl e \<Rightarrow> False | Inr k \<Rightarrow> True)"

fun targets :: "event list \<Rightarrow> (string \<times> string) list" where
  "targets [] = []"
| "targets (ev # rest) =
     (case QueryUnescape (Key (Object (S3 ev))) of
        Inl e \<Rightarrow> targets rest
      | Inr k \<Rightarrow> (Name (Bucket (S3 ev)), k) # targets rest)"

fun rejects :: "event list \<Rightarrow> gerror list" where
  "rejects [] = []"
| "rejects (ev # rest) =
     (case QueryUnescape (Key (Object (S3 ev))) of
        Inl e \<Rightarrow> e # rejects rest
      | Inr k \<Rightarrow> rejects rest)"

fun unescape_errors :: "effect list \<Rightarrow> gerror list" where
  "unescape_errors [] = []"
| "unescape_errors (MonError (Internal m e) # fx) =
     (if m = ''sqs: unable to unescape query'' then e # unescape_errors fx
      else unescape_errors fx)"
| "unescape_errors (x # fx) = unescape_errors fx"

definition task_target :: "task \<Rightarrow> string \<times> string" where
  "task_target t = (bucket t, key t)"

text \<open>What a \<open>drain\<close> at a program point has still to launch, and to report, for its message.\<close>

fun pending :: "drain_pc \<Rightarrow> (string \<times> string) list" where
  "pending (DRange evs) = targets evs"
| "pending (DAcquire b k rest) = (b, k) # targets rest"
| "pending (DGo b k rest) = (b, k) # targets rest"
| "pending pc = []"

fun pending_rejects :: "drain_pc \<Rightarrow> gerror list" where
  "pending_rejects (DRange evs) = rejects evs"
| "pending_rejects (DAcquire b k rest) = rejects rest"
| "pending_rejects (DGo b k rest) = rejects rest"
| "pending_rejects pc = []"

text \<open>
  The labels of a run in which \<open>drain\<close> number \<open>j\<close> works through the records of one
  message: it receives no further message, none of its acquires is cancelled, and no
  other \<open>drain\<close> (of a second call of \<open>Range\<close>) moves. Tasks and calls of \<open>Close\<close> run
  as they like.
\<close>

fun within_message :: "nat \<Rightarrow> label \<Rightarrow> bool" where
  "within_message j (DrainDone i) = (i = j)"
| "within_message j (DrainRecv i mo resp) = False"
| "within_message j (DrainNext i) = (i = j)"
| "within_message j (AcquireOk i) = (i = j)"
| "within_message j (AcquireCancelled i) = False"
| "within_message j (DrainGo i) = (i = j)"
| "within_message j l = True"

text \<open>The same label with the handler's result replaced.\<close>

fun with_result :: "bool \<Rightarrow> label \<Rightarrow> label" where
  "with_result b (TaskHandler k ret) = TaskHandler k b"
| "with_result b l = l"

text \<open>
  Every call of \<open>Close\<close> past its first statement has cancelled a context, and every
  one past its second has closed the queue; the contexts are those of the \<open>drain\<close>
  goroutines, in the order of their start, and \<open>s.cancel\<close> is the cancel function of
  the latest.
\<close>

definition close_ok :: "state \<Rightarrow> bool" where
  "close_ok s =
     ((\<forall>c \<in> set (closers s). c \<noteq> CCancel \<longrightarrow> True \<in> set (ctxs s)) \<and>
      (\<forall>c \<in> set (closers s). c = CAcquire \<or> c = CReturn \<longrightarrow> QueueClose \<in> set (trace s)) \<and>
      map dctx (drains s) = [0 ..< length (ctxs s)] \<and>
      cancel s = (if ctxs s = [] then None else Some (length (ctxs s) - 1)))"

text \<open>
  Inputs for the examples: a host whose decoder knows the bodies of a table and rejects
  every other body, and a notification record with a bucket and a key.
\<close>

definition host_of :: "nat \<Rightarrow> (string \<times> event list) list \<Rightarrow> host" where
  "host_of n table =
     \<lparr>NumCPU = n,
      Unmarshal = (\<lambda>body. case map_of table body of
                             None \<Rightarrow> Inl ''invalid character''
                           | Some evs \<Rightarrow> Inr \<lparr>Records = evs\<rparr>)\<rparr>"

definition record_of :: "string \<Rightarrow> string \<Rightarrow> event" where
  "record_of b k = \<lparr>S3 = \<lparr>Bucket = \<lparr>Name = b\<rparr>, Object = \<lparr>Key = k\<rparr>\<rparr>\<rparr>"

section \<open>Properties\<close>

subsection \<open>Runs\<close>

lemma exec_append:
  "exec h (ls @ ls') s = (case exec h ls s of Inl f \<Rightarrow> Inl f | Inr s' \<Rightarrow> exec h ls' s')"
  by (induction ls arbitrary: s) (auto split: sum.splits)

subsection \<open>The semaphore accounts for every unit\<close>

lemma count_update:
  "i < length xs \<Longrightarrow>
   length (filter P (xs[i := y])) + (if P (xs ! i) then 1 else 0) =
   length (filter P xs) + (if P y then 1 else 0)"
proof (induction xs arbitrary: i)
  case Nil
  then show ?case by simp
next
  case (Cons x xs)
  then show ?case by (cases i) auto
qed

lemma count_update_same:
  "i < length xs \<Longrightarrow> P y = P (xs ! i) \<Longrightarrow> length (filter P (xs[i := y])) = length (filter P xs)"
  using count_update [of i xs P y] by (simp split: if_splits)

lemma count_update_drop:
  "i < length xs \<Longrightarrow> P (xs ! i) \<Longrightarrow> \<not> P y \<Longrightarrow> Suc (length (filter P (xs[i := y]))) = length (filter P xs)"
  using count_update [of i xs P y] by simp

lemma count_update_add:
  "i < length xs \<Longrightarrow> \<not> P (xs ! i) \<Longrightarrow> P y \<Longrightarrow> length (filter P (xs[i := y])) = Suc (length (filter P xs))"
  using count_update [of i xs P y] by simp

lemma limit_ok_init: "limit_ok h (NewWith h)"
  by (simp add: limit_ok_def NewWith_def units_held_def)

lemma limit_ok_close:
  assumes "limit_ok h s" "close_step h i s = Inr s'"
  shows "limit_ok h s'"
  using assms
  apply (auto simp: limit_ok_def close_step_def units_held_def emit_def count_update_same count_update_add split: if_splits close_pc.splits option.splits)
  done

lemma limit_ok_task_load:
  assumes "limit_ok h s" "task_load k r s = Inr s'"
  shows "limit_ok h s'"
  using assms
  by (auto simp: limit_ok_def units_held_def emit_def task_load_def Let_def holding_def count_update_same
        split: if_splits sum.splits)

lemma limit_ok_task_handler:
  assumes "limit_ok h s" "task_handler k b s = Inr s'"
  shows "limit_ok h s'"
  using assms
  by (auto simp: limit_ok_def units_held_def emit_def task_handler_def holding_def count_update_same
        split: if_splits sum.splits option.splits)

lemma limit_ok_task_release:
  assumes "limit_ok h s" "task_release k s = Inr s'"
  shows "limit_ok h s'"
proof -
  from assms(2) have k: "k < length (tasks s)" "tpc (tasks s ! k) = TRelease"
    and s': "s' = s\<lparr>limit_cur := limit_cur s - 1,
                     tasks := (tasks s)[k := (tasks s ! k)\<lparr>tpc := TDuration\<rparr>]\<rparr>"
    by (auto simp: task_release_def split: if_splits)
  have "Suc (length (filter holding ((tasks s)[k := (tasks s ! k)\<lparr>tpc := TDuration\<rparr>])))
        = length (filter holding (tasks s))"
    using k by (intro count_update_drop) (simp_all add: holding_def)
  moreover have "limit_cur s' = limit_cur s - 1" "limit_size s' = limit_size s"
    "drains s' = drains s" "closers s' = closers s"
    "tasks s' = (tasks s)[k := (tasks s ! k)\<lparr>tpc := TDuration\<rparr>]"
    by (simp_all add: s')
  ultimately show ?thesis
    using assms(1) unfolding limit_ok_def units_held_def by simp linarith
qed

lemma limit_ok_task_duration:
  assumes "limit_ok h s" "task_duration k s = Inr s'"
  shows "limit_ok h s'"
  using assms
  by (auto simp: limit_ok_def units_held_def emit_def task_duration_def holding_def count_update_same
        split: if_splits)

lemma receive_not_admitted: "receive h mo resp = (fx, pc) \<Longrightarrow> \<not> admitted pc"
  by (auto simp: receive_def acknowledge_def split: option.splits sum.splits prod.splits)

lemma next_record_not_admitted: "next_record evs = (fx, pc) \<Longrightarrow> \<not> admitted pc"
  by (cases evs) (auto split: sum.splits)

lemma units_held_emit [simp]: "units_held h (emit fx s) = units_held h s"
  by (simp add: units_held_def emit_def)

lemma limit_ok_emit [simp]: "limit_ok h (emit fx s) = limit_ok h s"
  by (simp add: limit_ok_def emit_def units_held_def)

lemma limit_ok_set_dpc_same:
  assumes "limit_ok h s" "j < length (drains s)" "admitted pc = admitted (dpc (drains s ! j))"
  shows "limit_ok h (set_dpc j pc s)"
  using assms
  by (simp add: limit_ok_def units_held_def set_dpc_def count_update_same launching_def)

lemma limit_ok_drain:
  assumes "limit_ok h s" "drain_step h l j s = Inr s'"
  shows "limit_ok h s'"
proof -
  from assms(2) have j: "j < length (drains s)"
    by (auto simp: drain_step_def split: if_splits)
  show ?thesis
  proof (cases "dpc (drains s ! j)")
    case DSelect
    with assms j show ?thesis
      by (auto simp: drain_step_def limit_ok_set_dpc_same receive_not_admitted
          split: label.splits if_splits prod.splits)
  next
    case (DRange evs)
    with assms j show ?thesis
      by (auto simp: drain_step_def limit_ok_set_dpc_same next_record_not_admitted
          split: label.splits if_splits prod.splits)
  next
    case (DAcquire b k rest)
    show ?thesis
    proof (cases l)
      case (AcquireOk j')
      with assms j DAcquire have free: "limit_cur s + 1 \<le> limit_size s"
        and s': "s' = set_dpc j (DGo b k rest) (s\<lparr>limit_cur := limit_cur s + 1\<rparr>)"
        by (auto simp: drain_step_def split: if_splits)
      have "length (filter launching ((drains s)[j := (drains s ! j)\<lparr>dpc := DGo b k rest\<rparr>]))
            = Suc (length (filter launching (drains s)))"
        using j DAcquire by (intro count_update_add) (simp_all add: launching_def)
      with assms(1) free show ?thesis
        by (simp add: s' limit_ok_def units_held_def set_dpc_def)
    next
      case (AcquireCancelled j')
      with assms j DAcquire show ?thesis
        by (auto simp: drain_step_def limit_ok_set_dpc_same split: if_splits)
    qed (use assms j DAcquire in \<open>auto simp: drain_step_def\<close>)
  next
    case (DGo b k rest)
    show ?thesis
    proof (cases l)
      case (DrainGo j')
      with assms j DGo
      have s': "s' = set_dpc j (DRange rest)
                  (s\<lparr>tasks := tasks s @ [\<lparr>bucket = b, key = k, outcome = None, tpc = TLoad\<rparr>]\<rparr>)"
        by (auto simp: drain_step_def)
      have "Suc (length (filter launching ((drains s)[j := (drains s ! j)\<lparr>dpc := DRange rest\<rparr>])))
            = length (filter launching (drains s))"
        using j DGo by (intro count_update_drop) (simp_all add: launching_def)
      with assms(1) show ?thesis
        by (simp add: s' limit_ok_def units_held_def set_dpc_def holding_def)
    qed (use assms j DGo in \<open>auto simp: drain_step_def\<close>)
  next
    case DReturn
    with assms j show ?thesis
      by (auto simp: drain_step_def split: label.splits)
  qed
qed

lemma limit_ok_step:
  assumes "limit_ok h s" "step h l s = Inr s'"
  shows "limit_ok h s'"
proof (cases l)
  case CallRange
  with assms show ?thesis
    by (auto simp: Range_def limit_ok_def units_held_def emit_def launching_def)
next
  case CallClose
  with assms show ?thesis
    by (auto simp: limit_ok_def units_held_def)
qed (use assms in \<open>auto intro: limit_ok_close limit_ok_drain limit_ok_task_load
      limit_ok_task_handler limit_ok_task_release limit_ok_task_duration\<close>)

lemma limit_ok_exec:
  "limit_ok h s \<Longrightarrow> exec h ls s = Inr s' \<Longrightarrow> limit_ok h s'"
proof (induction ls arbitrary: s)
  case Nil
  then show ?case by simp
next
  case (Cons l ls)
  then show ?case
    by (auto split: sum.splits dest: limit_ok_step)
qed

subsection \<open>The ceiling on concurrent tasks\<close>

text \<open>
  C2 (as amended). In every state a run of the ingress reaches, the tasks that have been
  launched and have not yet run their deferred Release are at most \<open>3 * NumCPU\<close>, the
  capacity the semaphore was created with; the units taken are exactly those of the
  tasks before the end of their Release, of a \<open>drain\<close> between its acquire and its
  \<open>go\<close> statement, and of a returned \<open>Close\<close>. So a unit is taken before a task is
  launched and given back on both paths of the task; the bound does not count a task
  that has released and still runs its deferred Duration report.
\<close>

theorem limiter_bounds_tasks_holding_a_unit:
  assumes "exec h ls (NewWith h) = Inr s"
  shows "outstanding s \<le> 3 * NumCPU h \<and> limit_size s = 3 * NumCPU h \<and>
         limit_cur s = units_held h s \<and> limit_cur s \<le> limit_size s"
proof -
  have ok: "limit_ok h s"
    using limit_ok_init assms by (rule limit_ok_exec)
  then have "outstanding s \<le> limit_cur s"
    by (simp add: limit_ok_def units_held_def outstanding_def)
  with ok show ?thesis
    by (simp add: limit_ok_def concurrency_def)
qed

theorem limiter_bounds_tasks_holding_a_unit_witness:
  "outstanding
     \<lparr>cancel = Some 0, ctxs = [False], limit_size = 3, limit_cur = 1,
      drains = [\<lparr>dctx = 0, dpc = DRange []\<rparr>],
      tasks = [\<lparr>bucket = ''b'', key = ''k'', outcome = None, tpc = TLoad\<rparr>],
      closers = [],
      trace = [StartPolling 1 100,
               DeleteMessage \<lparr>Body = Some ''m'', ReceiptHandle = Some ''r''\<rparr>]\<rparr>
   \<le> 3 * NumCPU (host_of 1 [(''m'', [record_of ''b'' ''k''])])"
proof -
  have run: "exec (host_of 1 [(''m'', [record_of ''b'' ''k''])])
      [CallRange, DrainRecv 0 (Some \<lparr>Body = Some ''m'', ReceiptHandle = Some ''r''\<rparr>) None,
       DrainNext 0, AcquireOk 0, DrainGo 0]
      (NewWith (host_of 1 [(''m'', [record_of ''b'' ''k''])]))
    = Inr \<lparr>cancel = Some 0, ctxs = [False], limit_size = 3, limit_cur = 1,
           drains = [\<lparr>dctx = 0, dpc = DRange []\<rparr>],
           tasks = [\<lparr>bucket = ''b'', key = ''k'', outcome = None, tpc = TLoad\<rparr>],
           closers = [],
           trace = [StartPolling 1 100,
                    DeleteMessage \<lparr>Body = Some ''m'', ReceiptHandle = Some ''r''\<rparr>]\<rparr>"
    by code_simp
  from limiter_bounds_tasks_holding_a_unit [OF run] show ?thesis
    by blast
qed

text \<open>
  C2 as stated fails: with one CPU the ceiling is 3, and after the first of three tasks
  has released its unit and before it has reported its duration, a fourth task is
  launched; four tasks have not finished.
\<close>

theorem unfinished_tasks_exceed_ceiling:
  "map_sum id (map tpc \<circ> tasks)
     (exec (host_of 1 [(''m'', [record_of ''b'' ''k1'', record_of ''b'' ''k2'',
                                record_of ''b'' ''k3'', record_of ''b'' ''k4''])])
        [CallRange, DrainRecv 0 (Some \<lparr>Body = Some ''m'', ReceiptHandle = Some ''r''\<rparr>) None,
         DrainNext 0, AcquireOk 0, DrainGo 0,
         DrainNext 0, AcquireOk 0, DrainGo 0,
         DrainNext 0, AcquireOk 0, DrainGo 0,
         TaskLoad 0 (Inr ''data''), TaskHandler 0 False, TaskRelease 0,
         DrainNext 0, AcquireOk 0, DrainGo 0]
        (NewWith (host_of 1 [(''m'', [record_of ''b'' ''k1'', record_of ''b'' ''k2'',
                                      record_of ''b'' ''k3'', record_of ''b'' ''k4''])])))
     = Inr [TDuration, TLoad, TLoad, TLoad]
   \<and> map_sum id unfinished
     (exec (host_of 1 [(''m'', [record_of ''b'' ''k1'', record_of ''b'' ''k2'',
                                record_of ''b'' ''k3'', record_of ''b'' ''k4''])])
        [CallRange, DrainRecv 0 (Some \<lparr>Body = Some ''m'', ReceiptHandle = Some ''r''\<rparr>) None,
         DrainNext 0, AcquireOk 0, DrainGo 0,
         DrainNext 0, AcquireOk 0, DrainGo 0,
         DrainNext 0, AcquireOk 0, DrainGo 0,
         TaskLoad 0 (Inr ''data''), TaskHandler 0 False, TaskRelease 0,
         DrainNext 0, AcquireOk 0, DrainGo 0]
        (NewWith (host_of 1 [(''m'', [record_of ''b'' ''k1'', record_of ''b'' ''k2'',
                                      record_of ''b'' ''k3'', record_of ''b'' ''k4''])])))
     = Inr 4
   \<and> concurrency (host_of 1 [(''m'', [record_of ''b'' ''k1'', record_of ''b'' ''k2'',
                                      record_of ''b'' ''k3'', record_of ''b'' ''k4''])]) = 3"
  by code_simp

subsection \<open>Close as a barrier\<close>

lemma close_ok_init: "close_ok (NewWith h)"
  by (simp add: close_ok_def NewWith_def)

lemma close_ok_emit:
  "close_ok s \<Longrightarrow> close_ok (emit fx s)"
  by (auto simp: close_ok_def emit_def)

lemma map_dctx_set_dpc: "map dctx (ds[j := (ds ! j)\<lparr>dpc := pc\<rparr>]) = map dctx ds"
  by (induction ds arbitrary: j) (auto split: nat.splits)

lemma in_set_updateD: "c \<in> set (xs[i := x]) \<Longrightarrow> c = x \<or> c \<in> set xs"
  using set_update_subset_insert [of xs i x] by auto

lemma close_ok_set_dpc:
  "close_ok s \<Longrightarrow> close_ok (set_dpc j pc s)"
  by (simp add: close_ok_def set_dpc_def map_dctx_set_dpc)

lemma close_ok_tasks:
  "close_ok s \<Longrightarrow> close_ok (s\<lparr>tasks := ts\<rparr>)"
  by (simp add: close_ok_def)

lemma close_ok_limit:
  "close_ok s \<Longrightarrow> close_ok (s\<lparr>limit_cur := n\<rparr>)"
  by (simp add: close_ok_def)

lemma close_ok_drain:
  assumes "close_ok s" "drain_step h l j s = Inr s'"
  shows "close_ok s'"
  using assms
  by (auto simp: drain_step_def close_ok_emit close_ok_set_dpc close_ok_tasks close_ok_limit
      split: if_splits label.splits drain_pc.splits prod.splits)

lemma close_ok_task:
  assumes "close_ok s"
  shows "task_load k r s = Inr s' \<Longrightarrow> close_ok s'"
    and "task_handler k b s = Inr s' \<Longrightarrow> close_ok s'"
    and "task_release k s = Inr s' \<Longrightarrow> close_ok s'"
    and "task_duration k s = Inr s' \<Longrightarrow> close_ok s'"
  using assms
  by (auto simp: task_load_def task_handler_def task_release_def task_duration_def Let_def
      close_ok_def emit_def split: if_splits sum.splits option.splits)

lemma close_ok_close:
  assumes "close_ok s" "close_step h i s = Inr s'"
  shows "close_ok s'"
proof -
  from assms(2) have i: "i < length (closers s)"
    by (auto simp: close_step_def split: if_splits)
  show ?thesis
  proof (cases "closers s ! i")
    case CCancel
    with assms i obtain c where c: "cancel s = Some c"
      and s': "s' = s\<lparr>ctxs := (ctxs s)[c := True], closers := (closers s)[i := CQueueClose]\<rparr>"
      by (auto simp: close_step_def split: option.splits)
    from c assms(1) have ne: "ctxs s \<noteq> []" and "c < length (ctxs s)"
      by (auto simp: close_ok_def split: if_splits)
    then have "True \<in> set ((ctxs s)[c := True])"
      by (simp add: set_update_memI)
    with assms(1) ne show ?thesis
      by (auto simp: s' close_ok_def dest!: in_set_updateD)
  next
    case CQueueClose
    with assms i have s': "s' = emit [QueueClose] (s\<lparr>closers := (closers s)[i := CAcquire]\<rparr>)"
      by (simp add: close_step_def)
    from CQueueClose i have "CQueueClose \<in> set (closers s)"
      by (metis nth_mem)
    with assms(1) have "True \<in> set (ctxs s)"
      by (auto simp: close_ok_def)
    with assms(1) show ?thesis
      by (auto simp: s' close_ok_def emit_def dest!: in_set_updateD)
  next
    case CAcquire
    with i have "CAcquire \<in> set (closers s)"
      by (metis nth_mem)
    with assms(1) have q: "QueueClose \<in> set (trace s)" "True \<in> set (ctxs s)"
      by (auto simp: close_ok_def)
    from CAcquire assms i
    have s': "s' = s\<lparr>limit_cur := limit_cur s + concurrency h, closers := (closers s)[i := CReturn]\<rparr>"
      by (auto simp: close_step_def split: if_splits)
    from assms(1) q show ?thesis
      by (auto simp: s' close_ok_def dest!: in_set_updateD)
  next
    case CReturn
    with assms i show ?thesis by (simp add: close_step_def)
  qed
qed

lemma close_ok_step:
  assumes "close_ok s" "step h l s = Inr s'"
  shows "close_ok s'"
proof (cases l)
  case CallRange
  with assms(2) have s': "s' = Range s"
    by simp
  from assms(1) show ?thesis
    by (simp add: s' Range_def close_ok_def emit_def)
next
  case CallClose
  with assms show ?thesis
    by (auto simp: close_ok_def)
qed (use assms in \<open>auto intro: close_ok_close close_ok_drain close_ok_task\<close>)

lemma close_ok_exec:
  "close_ok s \<Longrightarrow> exec h ls s = Inr s' \<Longrightarrow> close_ok s'"
proof (induction ls arbitrary: s)
  case Nil
  then show ?case by simp
next
  case (Cons l ls)
  then show ?case
    by (auto split: sum.splits dest: close_ok_step)
qed

text \<open>Once a call of \<open>Close\<close> has returned, no task and no \<open>drain\<close> holds a unit.\<close>

lemma returned_none_held:
  assumes "limit_ok h s" "CReturn \<in> set (closers s)"
  shows "filter holding (tasks s) = []" "filter launching (drains s) = []"
    "limit_cur s = limit_size s"
proof -
  from assms(2) have "filter (\<lambda>c. c = CReturn) (closers s) \<noteq> []"
    by (simp add: filter_empty_conv)
  then have "1 \<le> length (filter (\<lambda>c. c = CReturn) (closers s))"
    by (cases "filter (\<lambda>c. c = CReturn) (closers s)") simp_all
  then have "concurrency h \<le> concurrency h * length (filter (\<lambda>c. c = CReturn) (closers s))"
    by simp
  with assms(1) have "length (filter holding (tasks s)) = 0 \<and> length (filter launching (drains s)) = 0
      \<and> limit_cur s = limit_size s"
    unfolding limit_ok_def units_held_def by linarith
  then show "filter holding (tasks s) = []" "filter launching (drains s) = []"
    "limit_cur s = limit_size s"
    by simp_all
qed

lemma in_set_update_other:
  assumes "c \<in> set xs" "xs ! i \<noteq> c"
  shows "c \<in> set (xs[i := x])"
proof -
  from assms(1) obtain n where n: "n < length xs" "xs ! n = c"
    by (auto simp: in_set_conv_nth)
  with assms(2) have "n \<noteq> i" by auto
  with n have "n < length (xs[i := x])" "xs[i := x] ! n = c"
    by simp_all
  then show ?thesis
    by (metis nth_mem)
qed

lemma returned_step:
  assumes "limit_ok h s" "CReturn \<in> set (closers s)" "step h l s = Inr s'"
  shows "length (tasks s') = length (tasks s) \<and> CReturn \<in> set (closers s')"
proof (cases l)
  case (DrainGo j)
  have none: "\<forall>d \<in> set (drains s). \<not> launching d"
    using returned_none_held(2) [OF assms(1,2)] by (simp add: filter_empty_conv)
  show ?thesis
  proof (cases "j < length (drains s)")
    case True
    with none have "\<not> admitted (dpc (drains s ! j))"
      by (simp add: launching_def [symmetric])
    with assms DrainGo True show ?thesis
      by (auto simp: drain_step_def split: drain_pc.splits)
  next
    case False
    with assms DrainGo show ?thesis by (simp add: drain_step_def)
  qed
next
  case (CloseStep i)
  with assms show ?thesis
    by (auto simp: close_step_def emit_def set_update_memI in_set_update_other
        split: if_splits close_pc.splits option.splits)
qed (use assms in \<open>auto simp: Range_def emit_def drain_step_def set_dpc_def task_load_def
      task_handler_def task_release_def task_duration_def Let_def
      split: if_splits drain_pc.splits prod.splits sum.splits option.splits\<close>)

lemma returned_exec:
  assumes "limit_ok h s" "CReturn \<in> set (closers s)" "exec h ls s = Inr s'"
  shows "length (tasks s') = length (tasks s)"
  using assms
proof (induction ls arbitrary: s)
  case Nil
  then show ?case by simp
next
  case (Cons l ls)
  from Cons.prems obtain s1 where s1: "step h l s = Inr s1" and rest: "exec h ls s1 = Inr s'"
    by (auto split: sum.splits)
  from returned_step [OF Cons.prems(1,2) s1] limit_ok_step [OF Cons.prems(1) s1]
  have "length (tasks s1) = length (tasks s)" "CReturn \<in> set (closers s1)" "limit_ok h s1"
    by simp_all
  with Cons.IH [OF _ _ rest] show ?case by simp
qed

text \<open>
  C1 (as amended). In every run, once a call of \<open>Close\<close> has returned, every task
  launched so far is past its deferred Release: its Load has returned, the handler has
  been called if the Load succeeded, and its unit is back; no \<open>drain\<close> holds a unit for
  a launch, the whole semaphore is taken, the queue has been closed and a context has
  been cancelled (the one of the \<open>drain\<close>, when \<open>Range\<close> was called once); and in no
  continuation of the run is a further task launched. A task may still have to make its
  deferred Duration report.
\<close>

theorem close_returns_after_units_released:
  assumes "exec h ls (NewWith h) = Inr s" and "i < length (closers s)"
    and "closers s ! i = CReturn"
  shows "(\<forall>t \<in> set (tasks s). tpc t = TDuration \<or> tpc t = TDone) \<and>
         (\<forall>d \<in> set (drains s). \<not> launching d) \<and>
         outstanding s = 0 \<and> limit_cur s = limit_size s \<and>
         QueueClose \<in> set (trace s) \<and>
         (\<exists>c. ctx_done s c) \<and>
         (length (drains s) = 1 \<longrightarrow> ctx_done s (dctx (drains s ! 0))) \<and>
         (\<forall>ls' s'. exec h ls' s = Inr s' \<longrightarrow> length (tasks s') = length (tasks s))"
proof -
  have ok: "limit_ok h s"
    using limit_ok_init assms(1) by (rule limit_ok_exec)
  have cl: "close_ok s"
    using close_ok_init assms(1) by (rule close_ok_exec)
  have ret: "CReturn \<in> set (closers s)"
    using assms(2,3) by (metis nth_mem)
  note none = returned_none_held [OF ok ret]
  have tasks: "\<forall>t \<in> set (tasks s). tpc t = TDuration \<or> tpc t = TDone"
  proof
    fix t assume "t \<in> set (tasks s)"
    with none(1) have "\<not> holding t" by (simp add: filter_empty_conv)
    then show "tpc t = TDuration \<or> tpc t = TDone"
      by (cases "tpc t") (simp_all add: holding_def)
  qed
  have drains: "\<forall>d \<in> set (drains s). \<not> launching d"
    using none(2) by (simp add: filter_empty_conv)
  have closed: "QueueClose \<in> set (trace s)"
    using cl ret by (auto simp: close_ok_def)
  have "True \<in> set (ctxs s)"
    using cl ret by (auto simp: close_ok_def)
  then obtain c where c: "c < length (ctxs s)" "ctxs s ! c"
    by (auto simp: in_set_conv_nth)
  then have cancelled: "\<exists>c. ctx_done s c"
    by (auto simp: ctx_done_def)
  have one: "length (drains s) = 1 \<longrightarrow> ctx_done s (dctx (drains s ! 0))"
  proof
    assume l: "length (drains s) = 1"
    from cl have m: "map dctx (drains s) = [0 ..< length (ctxs s)]"
      by (simp add: close_ok_def)
    from arg_cong [OF m, of length] l have n: "length (ctxs s) = 1"
      by simp
    from l have "dctx (drains s ! 0) = map dctx (drains s) ! 0"
      by simp
    also have "\<dots> = 0"
      by (simp add: m n)
    finally have "dctx (drains s ! 0) = 0" .
    with c n have "ctxs s ! 0"
      by simp
    with n \<open>dctx (drains s ! 0) = 0\<close> show "ctx_done s (dctx (drains s ! 0))"
      by (simp add: ctx_done_def)
  qed
  have later: "\<forall>ls' s'. exec h ls' s = Inr s' \<longrightarrow> length (tasks s') = length (tasks s)"
    using returned_exec [OF ok ret] by blast
  from tasks drains none closed cancelled one later show ?thesis
    by (simp add: outstanding_def)
qed

theorem close_returns_after_units_released_witness:
  "outstanding
     \<lparr>cancel = Some 0, ctxs = [True], limit_size = 3, limit_cur = 3,
      drains = [\<lparr>dctx = 0, dpc = DRange []\<rparr>],
      tasks = [\<lparr>bucket = ''b'', key = ''k'', outcome = Some (Inl ''timeout''), tpc = TDone\<rparr>],
      closers = [CReturn],
      trace = [StartPolling 1 100,
               DeleteMessage \<lparr>Body = Some ''m'', ReceiptHandle = Some ''r''\<rparr>,
               Load ''s3://b/k'', MonCount1 ''s3sqs'' ''s3readerror'',
               MonError (External ''timeout''), QueueClose,
               MonDuration ''s3sqs'' ''s3sqs'']\<rparr> = 0"
proof -
  have run: "exec (host_of 1 [(''m'', [record_of ''b'' ''k''])])
      [CallRange, DrainRecv 0 (Some \<lparr>Body = Some ''m'', ReceiptHandle = Some ''r''\<rparr>) None,
       DrainNext 0, AcquireOk 0, DrainGo 0, TaskLoad 0 (Inl ''timeout''),
       CallClose, CloseStep 0, CloseStep 0, TaskRelease 0, TaskDuration 0, CloseStep 0]
      (NewWith (host_of 1 [(''m'', [record_of ''b'' ''k''])]))
    = Inr \<lparr>cancel = Some 0, ctxs = [True], limit_size = 3, limit_cur = 3,
           drains = [\<lparr>dctx = 0, dpc = DRange []\<rparr>],
           tasks = [\<lparr>bucket = ''b'', key = ''k'', outcome = Some (Inl ''timeout''),
                     tpc = TDone\<rparr>],
           closers = [CReturn],
           trace = [StartPolling 1 100,
                    DeleteMessage \<lparr>Body = Some ''m'', ReceiptHandle = Some ''r''\<rparr>,
                    Load ''s3://b/k'', MonCount1 ''s3sqs'' ''s3readerror'',
                    MonError (External ''timeout''), QueueClose,
                    MonDuration ''s3sqs'' ''s3sqs'']\<rparr>"
    by code_simp
  from close_returns_after_units_released [OF run, of 0] show ?thesis
    by simp
qed

text \<open>
  C1 as stated fails: a task releases its unit before its deferred Duration report, so
  \<open>Close\<close> can take the whole semaphore and return while the task is still running.
  Below, \<open>Close\<close> has returned and the task has not yet reported its duration.
\<close>

theorem close_returns_while_task_runs:
  "exec (host_of 1 [(''m'', [record_of ''b'' ''k''])])
     [CallRange, DrainRecv 0 (Some \<lparr>Body = Some ''m'', ReceiptHandle = Some ''r''\<rparr>) None,
      DrainNext 0, AcquireOk 0, DrainGo 0, TaskLoad 0 (Inr ''data''), TaskHandler 0 True,
      CallClose, CloseStep 0, CloseStep 0, TaskRelease 0, CloseStep 0]
     (NewWith (host_of 1 [(''m'', [record_of ''b'' ''k''])]))
   = Inr \<lparr>cancel = Some 0, ctxs = [True], limit_size = 3, limit_cur = 3,
          drains = [\<lparr>dctx = 0, dpc = DRange []\<rparr>],
          tasks = [\<lparr>bucket = ''b'', key = ''k'', outcome = Some (Inr ''data''),
                    tpc = TDuration\<rparr>],
          closers = [CReturn],
          trace = [StartPolling 1 100,
                   DeleteMessage \<lparr>Body = Some ''m'', ReceiptHandle = Some ''r''\<rparr>,
                   Load ''s3://b/k'', Handler ''data'', QueueClose]\<rparr>"
  by code_simp

end
